theory Spec2Isabelle
  imports Main "HOL-Library.AList" "HOL-Library.Char_ord" "HOL-Library.List_Lexorder"
    "HOL-Library.Product_Lexorder" "HOL-Library.Multiset"
begin

section \<open>The source collector of \<^verbatim>\<open>read.py\<close>\<close>

text \<open>
  \<^verbatim>\<open>read.py\<close> has two functions. \<^verbatim>\<open>read_source_files\<close> walks a directory tree
  with \<^verbatim>\<open>os.walk\<close>, prunes directories, filters files by name and extension, reads the
  remaining ones as UTF-8 text and returns a dictionary from relative path to content;
  what it cannot read it reports with \<^verbatim>\<open>print\<close>. \<^verbatim>\<open>format_for_sharing\<close> turns such a
  dictionary into one string.

  The embedding makes the environment explicit:
  \<^item> the file system is a finite tree of directories and regular files (no symbolic
    links, no special files); a directory lists its entries in the order in which
    \<^verbatim>\<open>os.scandir\<close> returns them;
  \<^item> a regular file carries the outcome of \<^verbatim>\<open>open(path, 'r', encoding='utf-8')\<close>
    followed by \<^verbatim>\<open>read()\<close>: the decoded text, a \<^verbatim>\<open>UnicodeDecodeError\<close>, or any other
    exception with its message;
  \<^item> a path is the list of its components; \<^verbatim>\<open>str\<close> of a path joins them with the POSIX
    separator \<^verbatim>\<open>/\<close>;
  \<^item> \<^verbatim>\<open>mimetypes.guess_type\<close> belongs to the standard library and depends on the
    host's type tables, so it is a parameter \<open>guess_type\<close> of the model;
  \<^item> a Python dictionary is an association list with distinct keys in insertion order
    (\<open>AList.update\<close> overwrites in place or appends, as \<^verbatim>\<open>d[k] = v\<close> does);
  \<^item> what \<^verbatim>\<open>print\<close> writes is collected, line by line, in the field \<open>printed\<close>.

  The block under \<^verbatim>\<open>if __name__ == "__main__"\<close>, which writes the formatted string to a
  file, is outside the model.
\<close>

subsection \<open>File system\<close>

datatype read_result = Content string | DecodeError | ReadError string

datatype node = File read_result | Dir "(string \<times> node) list"

text \<open>Path resolution from a node: \<^verbatim>\<open>Path(root) / a / b\<close> followed by a system call.\<close>

fun lookup :: "node \<Rightarrow> string list \<Rightarrow> node option" where
  "lookup n [] = Some n"
| "lookup (File r) (x # xs) = None"
| "lookup (Dir es) (x # xs) = (case map_of es x of None \<Rightarrow> None | Some n \<Rightarrow> lookup n xs)"

text \<open>\<^verbatim>\<open>Path.exists()\<close>: true for a directory as well as for a file.\<close>

definition exists_path :: "node \<Rightarrow> string list \<Rightarrow> bool" where
  "exists_path n p = (lookup n p \<noteq> None)"

fun is_dir :: "node \<Rightarrow> bool" where
  "is_dir (Dir es) = True"
| "is_dir (File r) = False"

text \<open>
  The two name lists of one \<^verbatim>\<open>os.walk\<close> triple \<^verbatim>\<open>(root, dirs, files)\<close>: the entries
  that are directories, and all the others.
\<close>

definition dir_names :: "(string \<times> node) list \<Rightarrow> string list" where
  "dir_names es = map fst (filter (\<lambda>e. is_dir (snd e)) es)"

definition file_names :: "(string \<times> node) list \<Rightarrow> string list" where
  "file_names es = map fst (filter (\<lambda>e. \<not> is_dir (snd e)) es)"

text \<open>
  What a real file system guarantees: the names in one directory are pairwise different
  and no name contains the path separator.
\<close>

fun wf_node :: "node \<Rightarrow> bool" where
  "wf_node (File r) = True"
| "wf_node (Dir es) = (distinct (map fst es) \<and>
     (\<forall>e \<in> set es. CHR ''/'' \<notin> set (fst e) \<and> wf_node (snd e)))"

text \<open>
  \<^verbatim>\<open>open(file_path, 'r', encoding='utf-8')\<close> and \<^verbatim>\<open>f.read()\<close> at a resolved path.
  Opening a directory or a missing path raises an \<^verbatim>\<open>OSError\<close>, which the caller
  handles like every other exception.
\<close>

definition open_read :: "node option \<Rightarrow> string \<Rightarrow> read_result" where
  "open_read n p = (case n of
       Some (File r) \<Rightarrow> r
     | Some (Dir es) \<Rightarrow> ReadError (''[Errno 21] Is a directory: '' @ p)
     | None \<Rightarrow> ReadError (''[Errno 2] No such file or directory: '' @ p))"

subsection \<open>Strings and paths\<close>

text \<open>
  \<^verbatim>\<open>str.lower()\<close> on the letters \<^verbatim>\<open>A\<close> to \<^verbatim>\<open>Z\<close>; every other character is kept.
  (Python also lower-cases letters outside ASCII; the names of the program's own tables
  are ASCII.)
\<close>

definition lower_char :: "char \<Rightarrow> char" where
  "lower_char c =
     (if CHR ''A'' \<le> c \<and> c \<le> CHR ''Z'' then char_of (of_char c + (32::nat)) else c)"

definition lower :: "string \<Rightarrow> string" where
  "lower s = map lower_char s"

text \<open>\<^verbatim>\<open>s.rfind(c)\<close>: the last index of \<open>c\<close>, \<open>None\<close> for Python's \<^verbatim>\<open>-1\<close>.\<close>

definition rfind :: "char \<Rightarrow> string \<Rightarrow> nat option" where
  "rfind c s =
     (if c \<in> set s then Some (length s - 1 - length (takeWhile (\<lambda>x. x \<noteq> c) (rev s)))
      else None)"

text \<open>
  \<^verbatim>\<open>PurePath.suffix\<close> of pathlib, on the final component:
  \<^verbatim>\<open>
  i = name.rfind('.')
  if 0 < i < len(name) - 1: return name[i:]
  else: return ''
  \<close>
\<close>

definition suffix :: "string \<Rightarrow> string" where
  "suffix name = (case rfind CHR ''.'' name of
       None \<Rightarrow> []
     | Some i \<Rightarrow> if 0 < i \<and> i < length name - 1 then drop i name else [])"

text \<open>\<^verbatim>\<open>str\<close> of a relative path, and of an absolute one.\<close>

fun join_path :: "string list \<Rightarrow> string" where
  "join_path [] = []"
| "join_path [x] = x"
| "join_path (x # y # ys) = x @ CHR ''/'' # join_path (y # ys)"

definition path_str :: "string list \<Rightarrow> string" where
  "path_str p = CHR ''/'' # join_path p"

subsection \<open>\<^verbatim>\<open>read_source_files\<close>\<close>

datatype error = FileNotFoundError string

record state =
  code_files :: "(string \<times> string) list"
  printed :: "string list"

definition default_exclude_dirs :: "string list" where
  "default_exclude_dirs = [''.git'', ''node_modules'', ''__pycache__'', ''venv'',
     ''build'', ''dist'', ''coverage'', ''.next'', ''.cache'',
     ''lib'', ''.npm'', ''.yarn'', ''bower_components'',
     ''.vscode'', ''.idea'', ''.vs'']"

definition default_include_extensions :: "string list" where
  "default_include_extensions = [''.py'', ''.js'', ''.jsx'', ''.ts'', ''.tsx'',
     ''.html'', ''.css'', ''.scss'', ''.sass'',
     ''.java'', ''.cpp'', ''.c'', ''.h'', ''.hpp'',
     ''.rb'', ''.php'', ''.go'', ''.rs'', ''.swift'',
     ''.json'', ''.yml'', ''.yaml'', ''.toml'',
     ''.md'', ''.env'', ''.gitignore'', ''.eslintrc'',
     ''.prettierrc'', ''.babelrc'']"

text \<open>\<^verbatim>\<open>if exclude_dirs is None: exclude_dirs = [...]\<close>, and the same for the extensions.\<close>

definition or_default :: "'a option \<Rightarrow> 'a \<Rightarrow> 'a" where
  "or_default arg dflt = (case arg of None \<Rightarrow> dflt | Some v \<Rightarrow> v)"

definition package_indicators :: "string list" where
  "package_indicators = [''package.json'', ''setup.py'', ''requirements.txt'',
     ''Cargo.toml'', ''go.mod'']"

definition lock_files :: "string list" where
  "lock_files = [''package-lock.json'', ''yarn.lock'', ''poetry.lock'',
     ''pipfile.lock'', ''cargo.lock'', ''go.sum'']"

text \<open>
  Lines 47 to 56: \<^verbatim>\<open>any(p.exists() for p in package_indicators)\<close> for the child \<open>dir\<close>
  of the directory with entries \<open>es\<close>, and the loop over a copy of \<open>dirs\<close> that
  removes such children from \<open>dirs\<close> (\<^verbatim>\<open>list.remove\<close> deletes the first occurrence).
\<close>

definition has_package_indicator :: "(string \<times> node) list \<Rightarrow> string \<Rightarrow> bool" where
  "has_package_indicator es dir =
     list_ex (\<lambda>i. exists_path (Dir es) [dir, i]) package_indicators"

fun remove_package_dirs ::
  "(string \<times> node) list \<Rightarrow> string list \<Rightarrow> string list \<Rightarrow> string list" where
  "remove_package_dirs es [] dirs = dirs"
| "remove_package_dirs es (dir # rest) dirs =
     remove_package_dirs es rest
       (if has_package_indicator es dir then remove1 dir dirs else dirs)"

text \<open>
  Lines 44 to 56 together: the value of \<open>dirs\<close> when the body hands control back to
  \<^verbatim>\<open>os.walk\<close>, which then descends into exactly these children, in this order.
\<close>

definition remaining_dirs :: "string list \<Rightarrow> (string \<times> node) list \<Rightarrow> string list" where
  "remaining_dirs exclude_dirs es =
     (let dirs = filter (\<lambda>d. d \<notin> set exclude_dirs) (dir_names es)
      in remove_package_dirs es dirs dirs)"

text \<open>The three tests a file passes before it is opened (lines 62, 69 and 73).\<close>

definition is_lock_file :: "string \<Rightarrow> bool" where
  "is_lock_file file = (lower file \<in> set lock_files)"

definition extension_included :: "string list \<Rightarrow> string \<Rightarrow> bool" where
  "extension_included include_extensions file =
     (lower (suffix file) \<in> set include_extensions)"

definition non_text :: "string option \<Rightarrow> bool" where
  "non_text mime_type = (case mime_type of
       None \<Rightarrow> False
     | Some m \<Rightarrow> m \<noteq> [] \<and> take 5 m \<noteq> ''text/'')"

text \<open>
  The body of \<^verbatim>\<open>for file in files\<close> for one file of the directory \<open>Dir es\<close>, which
  lies at \<open>src_path @ rel\<close>. The two \<^verbatim>\<open>except\<close> clauses print and go on.
\<close>

definition process_file ::
  "(string \<Rightarrow> string option) \<Rightarrow> string list \<Rightarrow> string list \<Rightarrow> string list \<Rightarrow>
   (string \<times> node) list \<Rightarrow> state \<Rightarrow> string \<Rightarrow> state" where
  "process_file guess_type include_extensions src_path rel es st file =
     (let file_path = path_str (src_path @ rel @ [file]) in
      if is_lock_file file then st
      else if extension_included include_extensions file then
        (if non_text (guess_type file_path) then st
         else (case open_read (lookup (Dir es) [file]) file_path of
             Content content \<Rightarrow>
               st\<lparr>code_files :=
                 AList.update (join_path (rel @ [file])) content (code_files st)\<rparr>
           | DecodeError \<Rightarrow>
               st\<lparr>printed := printed st @
                 [''Warning: Could not read '' @ file_path @ '' as text file'']\<rparr>
           | ReadError e \<Rightarrow>
               st\<lparr>printed := printed st @
                 [''Error reading '' @ file_path @ '': '' @ e]\<rparr>))
      else st)"

text \<open>
  \<^verbatim>\<open>for root, dirs, files in os.walk(src_path)\<close> with its body. \<^verbatim>\<open>os.walk\<close> is top-down:
  it yields a directory, the body prunes \<open>dirs\<close> and handles \<open>files\<close>, and then the
  generator descends into what is left of \<open>dirs\<close>. A top that cannot be listed (it is
  not a directory) makes \<^verbatim>\<open>os.scandir\<close> fail, which \<^verbatim>\<open>os.walk\<close> ignores: it yields
  nothing.
\<close>

function walk ::
  "(string \<Rightarrow> string option) \<Rightarrow> string list \<Rightarrow> string list \<Rightarrow> string list \<Rightarrow>
   string list \<Rightarrow> node \<Rightarrow> state \<Rightarrow> state" where
  "walk guess_type include_extensions exclude_dirs src_path rel (File r) st = st"
| "walk guess_type include_extensions exclude_dirs src_path rel (Dir es) st =
     (let dirs = remaining_dirs exclude_dirs es;
          st = foldl (process_file guess_type include_extensions src_path rel es) st
                 (file_names es)
      in foldl (\<lambda>st d. case map_of es d of
                   None \<Rightarrow> st
                 | Some n \<Rightarrow>
                     walk guess_type include_extensions exclude_dirs src_path (rel @ [d]) n st)
           st dirs)"
  by pat_completeness auto
termination
proof (relation "measure (\<lambda>(g, i, e, s, r, n, st). size n)")
  show "wf (measure (\<lambda>(g, i, e, s, r, n, st). size n))"
    by simp
next
  fix guess_type :: "string \<Rightarrow> string option"
  fix include_extensions exclude_dirs src_path rel :: "string list"
  fix es :: "(string \<times> node) list" and st a :: state
  fix x xa :: "string list" and xb :: state and xc :: string and x2 :: node
  assume "map_of es xc = Some x2"
  then have "size x2 < Suc (size_list (size_prod (\<lambda>x. 0) size) es)"
    by (induction es) (auto split: if_splits)
  then show "((guess_type, include_extensions, exclude_dirs, src_path, rel @ [xc], x2, a),
      (guess_type, include_extensions, exclude_dirs, src_path, rel, Dir es, st))
    \<in> measure (\<lambda>(g, i, e, s, r, n, st). size n)"
    by simp
qed

text \<open>
  The function itself. \<open>src_path\<close> is the absolute path after \<^verbatim>\<open>Path(...).resolve()\<close>,
  as a component list from the root \<open>fs\<close> of the file system.
\<close>

definition read_source_files ::
  "node \<Rightarrow> (string \<Rightarrow> string option) \<Rightarrow> string list \<Rightarrow> string list option \<Rightarrow>
   string list option \<Rightarrow> error + state" where
  "read_source_files fs guess_type src_path exclude_dirs include_extensions =
     (let exclude_dirs = or_default exclude_dirs default_exclude_dirs;
          include_extensions = or_default include_extensions default_include_extensions
      in case lookup fs src_path of
           None \<Rightarrow>
             Inl (FileNotFoundError (''Source directory not found: '' @ path_str src_path))
         | Some start \<Rightarrow>
             Inr (walk guess_type include_extensions exclude_dirs src_path [] start
                    \<lparr>code_files = [], printed = []\<rparr>))"

subsection \<open>\<^verbatim>\<open>format_for_sharing\<close>\<close>

text \<open>
  \<^verbatim>\<open>sorted(code_files.items())\<close> sorts the pairs with Python's tuple order, which is the
  lexicographic product of the string order with itself; \<^verbatim>\<open>"".join\<close> concatenates the
  three pieces appended for each entry. The argument \<open>cfs\<close> is the dictionary
  \<^verbatim>\<open>code_files\<close>.
\<close>

definition format_for_sharing :: "(string \<times> string) list \<Rightarrow> string" where
  "format_for_sharing cfs =
     (if cfs = [] then ''No code files found''
      else concat (concat (map (\<lambda>(filepath, content).
             [CHR 0x0A # ''=== '' @ filepath @ '' ==='' @ [CHR 0x0A],
              content,
              CHR 0x0A # replicate 80 CHR ''='' @ [CHR 0x0A] ])
           (sort cfs))))"

subsection \<open>The output format in the words of the specification\<close>

text \<open>
  The specification describes the output as a sequence of blocks, one for each entry:
  a blank line, a header line \<^verbatim>\<open>=== <relative_path> ===\<close>, the content, a newline, a
  separator line of 80 repeated characters and a newline. These definitions follow that
  wording; they are compared with \<open>format_for_sharing\<close> below.
\<close>

definition blank_line :: string where
  "blank_line = [CHR 0x0A]"

definition header_line :: "string \<Rightarrow> string" where
  "header_line relative_path = ''=== '' @ relative_path @ '' ==='' @ [CHR 0x0A]"

definition separator_line :: string where
  "separator_line = replicate 80 CHR ''=''"

definition block :: "string \<times> string \<Rightarrow> string" where
  "block e =
     blank_line @ header_line (fst e) @ snd e @ [CHR 0x0A] @ separator_line @ [CHR 0x0A]"

subsection \<open>Predicates for stating the properties\<close>

text \<open>
  \<open>candidate\<close>: the file passes the three tests of the loop body, so that the body
  goes on to open it. \<open>visits\<close>: started at \<open>n\<close>, the walk arrives at the directory
  with relative path \<open>ds\<close>; it follows the recursion of \<open>walk\<close>, which at each level
  descends into the children listed by \<open>remaining_dirs\<close>. \<open>stored\<close>: some file that
  the walk from \<open>n\<close> reaches and opens has the content \<open>c\<close> and the key \<open>k\<close>.
\<close>

definition candidate ::
  "(string \<Rightarrow> string option) \<Rightarrow> string list \<Rightarrow> string list \<Rightarrow> string list \<Rightarrow> string \<Rightarrow> bool" where
  "candidate guess_type include_extensions src_path rel file =
     (\<not> is_lock_file file \<and> extension_included include_extensions file \<and>
      \<not> non_text (guess_type (path_str (src_path @ rel @ [file]))))"

fun visits :: "string list \<Rightarrow> node \<Rightarrow> string list \<Rightarrow> bool" where
  "visits exclude_dirs (File r) ds = False"
| "visits exclude_dirs (Dir es) [] = True"
| "visits exclude_dirs (Dir es) (d # ds) =
     (d \<in> set (remaining_dirs exclude_dirs es) \<and>
      (case map_of es d of None \<Rightarrow> False | Some n \<Rightarrow> visits exclude_dirs n ds))"

definition stored ::
  "(string \<Rightarrow> string option) \<Rightarrow> string list \<Rightarrow> string list \<Rightarrow> string list \<Rightarrow> string list \<Rightarrow>
   node \<Rightarrow> string \<Rightarrow> string \<Rightarrow> bool" where
  "stored guess_type include_extensions exclude_dirs src_path rel n k c =
     (\<exists>ds file es. visits exclude_dirs n ds \<and> lookup n ds = Some (Dir es) \<and>
        candidate guess_type include_extensions src_path (rel @ ds) file \<and>
        map_of es file = Some (File (Content c)) \<and> k = join_path (rel @ ds @ [file]))"

subsection \<open>A sample environment\<close>

text \<open>
  A small type table in the manner of \<^verbatim>\<open>mimetypes\<close>, and file systems on which the
  theorems below are instantiated.
\<close>

definition sample_guess_type :: "string \<Rightarrow> string option" where
  "sample_guess_type p =
     (let ext = lower (suffix p) in
      if ext = ''.py'' then Some ''text/x-python''
      else if ext = ''.md'' then Some ''text/markdown''
      else if ext = ''.json'' then Some ''application/json''
      else None)"

definition file_root_fs :: node where
  "file_root_fs = Dir [(''notes.py'', File (Content ''x=1''))]"

definition sample_proj :: node where
  "sample_proj = Dir [
      (''a.py'', File (Content ''x=1'')),
      (''b.lock'', File (Content ''zz'')),
      (''bad.py'', File DecodeError),
      (''locked.md'', File (ReadError ''[Errno 13] Permission denied'')),
      (''Yarn.lock'', File (Content ''# yarn'')),
      (''.gitignore'', File (Content ''*.pyc'')),
      (''data.json'', File (Content ''{}'')),
      (''sub'', Dir [
         (''c.md'', File (Content ''hello'')),
         (''node_modules'', Dir [(''d.js'', File (Content ''js''))])]),
      (''pkg'', Dir [
         (''package.json'', File (Content ''{}'')),
         (''src'', Dir [(''e.py'', File (Content ''e''))])])]"

definition sample_fs :: node where
  "sample_fs = Dir [(''proj'', sample_proj)]"

text \<open>A file system whose only project directory is called \<^verbatim>\<open>lib\<close>.\<close>

definition lib_root_fs :: node where
  "lib_root_fs = Dir [(''lib'', Dir [(''a.py'', File (Content ''x=1''))])]"

text \<open>A project that holds nothing but a \<^verbatim>\<open>.gitignore\<close>.\<close>

definition dotfile_fs :: node where
  "dotfile_fs = Dir [(''proj'', Dir [(''.gitignore'', File (Content ''*.pyc''))])]"

section \<open>Properties\<close>

subsection \<open>Lower-casing\<close>




subsection \<open>The formatter\<close>

lemma sorted_map_fst:
  fixes xs :: "(('a::linorder) \<times> ('b::linorder)) list"
  shows "sorted xs \<Longrightarrow> sorted (map fst xs)"
  by (induction xs) (auto simp: less_eq_prod_def)

lemma filter_key_distinct:
  "distinct (map fst xs) \<Longrightarrow> k \<in> set xs \<Longrightarrow> filter (\<lambda>x. fst k = fst x) xs = [k]"
  by (induction xs) (auto simp: filter_empty_conv rev_image_eqI)

text \<open>
  On a dictionary (distinct keys) the tuple order of \<^verbatim>\<open>sorted\<close> never looks at the
  contents: sorting the pairs is sorting by key.
\<close>

lemma sort_eq_sort_key_fst:
  fixes xs :: "(('a::linorder) \<times> ('b::linorder)) list"
  assumes "distinct (map fst xs)"
  shows "sort_key fst xs = sort xs"
proof (rule properties_for_sort_key)
  show "mset (sort xs) = mset xs" by simp
  show "sorted (map fst (sort xs))" by (rule sorted_map_fst) simp
  fix k assume k: "k \<in> set (sort xs)"
  have d: "distinct (map fst (sort xs))"
    by (metis assms distinct_map distinct_sort set_sort)
  show "filter (\<lambda>x. fst k = fst x) (sort xs) = filter (\<lambda>x. fst k = fst x) xs"
    using filter_key_distinct[OF d k] filter_key_distinct[OF assms] k by simp
qed

lemma concat_concat_map:
  "concat (concat (map f xs)) = concat (map (\<lambda>x. concat (f x)) xs)"
  by (induction xs) auto

lemma format_blocks:
  "cfs \<noteq> [] \<Longrightarrow> format_for_sharing cfs = concat (map block (sort cfs))"
  unfolding format_for_sharing_def
  by (simp add: concat_concat_map block_def [abs_def] blank_line_def header_line_def
      separator_line_def case_prod_beta)

lemma map_of_eq_mset:
  assumes dx: "distinct (map fst xs)" and dy: "distinct (map fst ys)"
    and eq: "map_of xs = map_of ys"
  shows "mset xs = mset ys"
proof -
  from dx dy eq have "set xs = set ys" by (simp add: map_of_inject_set)
  moreover from dx have "distinct xs" by (simp add: distinct_map)
  moreover from dy have "distinct ys" by (simp add: distinct_map)
  ultimately show ?thesis by (simp add: set_eq_iff_mset_eq_distinct)
qed

text \<open>
  Claim C5. For a non-empty dictionary \<open>cfs\<close>, \<open>format_for_sharing\<close> returns exactly
  the concatenation of the blocks of its entries, taken in ascending lexicographic order
  of their keys; each block is a newline, the header line, the content unchanged, a
  newline, 80 separator characters and a newline. The result depends on the mapping
  alone: another dictionary \<open>other\<close> that holds the same mapping (whatever its insertion
  order) yields the identical string.
\<close>

theorem format_for_sharing_sorted_blocks:
  assumes "cfs \<noteq> []" and "distinct (map fst cfs)"
  shows "format_for_sharing cfs = concat (map block (sort_key fst cfs)) \<and>
         (distinct (map fst other) \<and> map_of other = map_of cfs \<longrightarrow>
            format_for_sharing other = format_for_sharing cfs)"
proof
  show "format_for_sharing cfs = concat (map block (sort_key fst cfs))"
    using assms by (simp add: format_blocks sort_eq_sort_key_fst)
  show "distinct (map fst other) \<and> map_of other = map_of cfs \<longrightarrow>
          format_for_sharing other = format_for_sharing cfs"
  proof
    assume "distinct (map fst other) \<and> map_of other = map_of cfs"
    with assms(2) have m: "mset other = mset cfs"
      by (intro map_of_eq_mset) simp_all
    then have "sort other = sort cfs"
      by (intro properties_for_sort) simp_all
    moreover from m assms(1) have "other \<noteq> []" by auto
    ultimately show "format_for_sharing other = format_for_sharing cfs"
      using assms(1) by (simp add: format_blocks)
  qed
qed

theorem format_for_sharing_sorted_blocks_witness:
  "format_for_sharing [(''sub/c.md'', ''hello''), (''a.py'', ''x=1'')] =
     concat (map block [(''a.py'', ''x=1''), (''sub/c.md'', ''hello'')]) \<and>
   format_for_sharing [(''a.py'', ''x=1''), (''sub/c.md'', ''hello'')] =
     format_for_sharing [(''sub/c.md'', ''hello''), (''a.py'', ''x=1'')]"
proof -
  have ne: "[(''sub/c.md'', ''hello''), (''a.py'', ''x=1'')] \<noteq> []"
    by simp
  have d: "distinct (map fst [(''sub/c.md'', ''hello''), (''a.py'', ''x=1'')])"
    by simp
  have s: "sort_key fst [(''sub/c.md'', ''hello''), (''a.py'', ''x=1'')] =
      [(''a.py'', ''x=1''), (''sub/c.md'', ''hello'')]"
    by simp
  have m: "distinct (map fst [(''a.py'', ''x=1''), (''sub/c.md'', ''hello'')]) \<and>
      map_of [(''a.py'', ''x=1''), (''sub/c.md'', ''hello'')] =
      map_of [(''sub/c.md'', ''hello''), (''a.py'', ''x=1'')]"
    by (auto simp: fun_upd_twist)
  show ?thesis
    using format_for_sharing_sorted_blocks
      [OF ne d, of "[(''a.py'', ''x=1''), (''sub/c.md'', ''hello'')]"] s m
    by simp
qed

text \<open>
  Claim C6. On the empty dictionary \<open>format_for_sharing\<close> returns the fixed message
  \<^verbatim>\<open>No code files found\<close>, which is not the empty string.
\<close>

theorem format_for_sharing_empty:
  "format_for_sharing [] = ''No code files found'' \<and> format_for_sharing [] \<noteq> []"
  by (simp add: format_for_sharing_def)

subsection \<open>The root path\<close>

text \<open>
  The guard of line 39 is \<^verbatim>\<open>src_path.exists()\<close>: the function raises exactly when the
  path resolves to nothing at all.
\<close>

lemma read_source_files_error_iff:
  "(\<exists>e. read_source_files fs guess_type src_path exclude_dirs include_extensions = Inl e)
     \<longleftrightarrow> lookup fs src_path = None"
  by (simp add: read_source_files_def Let_def split: option.splits)

text \<open>
  Claim C7 says that a root path which resolves to something other than a directory
  fails with the not-found error. The code at such an input: \<open>src_path\<close> names the
  regular file \<^verbatim>\<open>/notes.py\<close>; the guard lets it through, \<^verbatim>\<open>os.walk\<close> yields nothing,
  and the function returns the empty dictionary without any message.
\<close>

theorem read_source_files_root_is_file:
  "lookup file_root_fs [''notes.py''] = Some (File (Content ''x=1'')) \<and>
   read_source_files file_root_fs sample_guess_type [''notes.py''] None None =
     Inr \<lparr>code_files = [], printed = []\<rparr>"
  by (simp add: file_root_fs_def read_source_files_def)

subsection \<open>The extension gate\<close>




subsection \<open>The walk\<close>

text \<open>Three facts about a loop that threads a state through a list.\<close>

lemma foldl_backward:
  assumes "\<And>s x. x \<in> set xs \<Longrightarrow> R (f s x) \<Longrightarrow> R s \<or> T x"
  shows "R (foldl f s xs) \<Longrightarrow> R s \<or> (\<exists>x \<in> set xs. T x)"
  using assms
proof (induction xs arbitrary: s)
  case Nil
  then show ?case by simp
next
  case (Cons x xs)
  from Cons.prems(1) have "R (foldl f (f s x) xs)" by simp
  then have "R (f s x) \<or> (\<exists>y \<in> set xs. T y)"
    by (rule Cons.IH) (simp add: Cons.prems(2))
  then show ?case
  proof
    assume "R (f s x)"
    then have "R s \<or> T x" by (intro Cons.prems(2)) simp_all
    then show ?thesis by auto
  next
    assume "\<exists>y \<in> set xs. T y"
    then show ?thesis by auto
  qed
qed

lemma foldl_stable:
  assumes "\<And>s x. x \<in> set xs \<Longrightarrow> P s \<Longrightarrow> P (f s x)"
  shows "P s \<Longrightarrow> P (foldl f s xs)"
  using assms by (induction xs arbitrary: s) auto

lemma foldl_establish:
  assumes "x \<in> set xs" and "\<And>s. P (f s x)"
    and "\<And>s y. y \<in> set xs \<Longrightarrow> P s \<Longrightarrow> P (f s y)"
  shows "P (foldl f s xs)"
proof -
  from assms(1) obtain ys zs where xs: "xs = ys @ x # zs"
    by (auto simp: in_set_conv_decomp)
  have "P (f (foldl f s ys) x)" by (rule assms(2))
  then have "P (foldl f (f (foldl f s ys) x) zs)"
    by (rule foldl_stable [rotated]) (simp add: assms(3) xs)
  then show ?thesis by (simp add: xs)
qed

lemma lookup_single: "lookup (Dir es) [x] = map_of es x"
  by (simp split: option.splits)

lemma open_read_Content:
  "open_read (map_of es file) p = Content c \<longleftrightarrow> map_of es file = Some (File (Content c))"
  by (auto simp: open_read_def split: option.splits node.splits)

lemma process_file_backward:
  assumes "map_of (code_files (process_file g incl src rel es s file)) k = Some c"
  shows "map_of (code_files s) k = Some c \<or>
    (candidate g incl src rel file \<and> map_of es file = Some (File (Content c)) \<and>
     k = join_path (rel @ [file]))"
proof (cases "candidate g incl src rel file")
  case False
  then have "process_file g incl src rel es s file = s"
    by (auto simp: process_file_def candidate_def Let_def)
  with assms show ?thesis by simp
next
  case True
  show ?thesis
  proof (cases "open_read (lookup (Dir es) [file]) (path_str (src @ rel @ [file]))")
    case (Content content)
    with True have "code_files (process_file g incl src rel es s file) =
        AList.update (join_path (rel @ [file])) content (code_files s)"
      by (simp add: process_file_def candidate_def Let_def)
    with assms have "((map_of (code_files s))(join_path (rel @ [file]) \<mapsto> content)) k = Some c"
      by (simp add: update_conv')
    moreover from Content have "map_of es file = Some (File (Content content))"
      by (simp only: lookup_single open_read_Content)
    ultimately show ?thesis
      using True by (auto split: if_splits)
  next
    case DecodeError
    with True have "code_files (process_file g incl src rel es s file) = code_files s"
      by (simp add: process_file_def candidate_def Let_def)
    with assms show ?thesis by simp
  next
    case (ReadError e)
    with True have "code_files (process_file g incl src rel es s file) = code_files s"
      by (simp add: process_file_def candidate_def Let_def)
    with assms show ?thesis by simp
  qed
qed

lemma stored_here:
  "candidate g incl src rel file \<Longrightarrow> map_of es file = Some (File (Content c)) \<Longrightarrow>
   stored g incl excl src rel (Dir es) (join_path (rel @ [file])) c"
  unfolding stored_def
  by (rule exI [of _ "[]"]) auto

lemma stored_below:
  assumes "d \<in> set (remaining_dirs excl es)" and "map_of es d = Some n"
    and "stored g incl excl src (rel @ [d]) n k c"
  shows "stored g incl excl src rel (Dir es) k c"
proof -
  from assms(3) obtain ds f es' where
    "visits excl n ds" "lookup n ds = Some (Dir es')"
    "candidate g incl src ((rel @ [d]) @ ds) f"
    "map_of es' f = Some (File (Content c))" "k = join_path ((rel @ [d]) @ ds @ [f])"
    unfolding stored_def by blast
  with assms(1,2) show ?thesis
    unfolding stored_def
    by (intro exI [of _ "d # ds"] exI [of _ f] exI [of _ es']) simp
qed

lemma walk_backward:
  "map_of (code_files (walk g incl excl src rel n st)) k = Some c \<Longrightarrow>
   map_of (code_files st) k = Some c \<or> stored g incl excl src rel n k c"
proof (induction g incl excl src rel n st rule: walk.induct)
  case (1 g incl excl src rel r st)
  then show ?case by simp
next
  case (2 g incl excl src rel es st)
  let ?R = "\<lambda>s. map_of (code_files s) k = Some c"
  let ?dirs = "remaining_dirs excl es"
  let ?st1 = "foldl (process_file g incl src rel es) st (file_names es)"
  let ?step = "\<lambda>st d. case map_of es d of None \<Rightarrow> st
     | Some n \<Rightarrow> walk g incl excl src (rel @ [d]) n st"
  from "2.prems" have "?R (foldl ?step ?st1 ?dirs)"
    by (simp add: Let_def)
  then have "?R ?st1 \<or> (\<exists>d \<in> set ?dirs. stored g incl excl src rel (Dir es) k c)"
  proof (rule foldl_backward [rotated])
    fix s d assume d: "d \<in> set ?dirs" and r: "?R (?step s d)"
    show "?R s \<or> stored g incl excl src rel (Dir es) k c"
    proof (cases "map_of es d")
      case None
      with r show ?thesis by simp
    next
      case (Some n)
      with r have "?R (walk g incl excl src (rel @ [d]) n s)" by simp
      then have "?R s \<or> stored g incl excl src (rel @ [d]) n k c"
        using d Some by (intro "2.IH" [OF refl refl]) 
      with d Some show ?thesis by (auto intro: stored_below)
    qed
  qed
  moreover have "?R st \<or> stored g incl excl src rel (Dir es) k c" if "?R ?st1"
  proof -
    from that have "?R st \<or> (\<exists>file \<in> set (file_names es).
        candidate g incl src rel file \<and> map_of es file = Some (File (Content c)) \<and>
        k = join_path (rel @ [file]))"
      by (rule foldl_backward [rotated]) (rule process_file_backward)
    then show ?thesis by (auto intro: stored_here)
  qed
  ultimately show ?case by blast
qed

lemma sep_split_unique:
  assumes "CHR ''/'' \<notin> set x" and "CHR ''/'' \<notin> set y" and "x @ a = y @ b"
    and "a = [] \<or> hd a = CHR ''/''" and "b = [] \<or> hd b = CHR ''/''"
  shows "x = y \<and> a = b"
proof -
  from assms(3) obtain us where
    us: "(x = y @ us \<and> us @ a = b) \<or> (x @ us = y \<and> a = us @ b)"
    by (auto simp: append_eq_append_conv2)
  have "us = []"
  proof (rule ccontr)
    assume ne: "us \<noteq> []"
    then have "hd us \<in> set us" by simp
    from us show False
    proof
      assume h: "x = y @ us \<and> us @ a = b"
      with ne assms(5) have "hd us = CHR ''/''" by auto
      with \<open>hd us \<in> set us\<close> h assms(1) show False by auto
    next
      assume h: "x @ us = y \<and> a = us @ b"
      with ne assms(4) have "hd us = CHR ''/''" by auto
      with \<open>hd us \<in> set us\<close> h assms(2) show False by auto
    qed
  qed
  with us show ?thesis by auto
qed

lemma join_path_Cons:
  "join_path (x # xs) = x @ (if xs = [] then [] else CHR ''/'' # join_path xs)"
  by (cases xs) auto

lemma join_path_inject:
  assumes "\<forall>x \<in> set xs. CHR ''/'' \<notin> set x" and "\<forall>y \<in> set ys. CHR ''/'' \<notin> set y"
    and "xs \<noteq> []" and "ys \<noteq> []" and "join_path xs = join_path ys"
  shows "xs = ys"
  using assms
proof (induction xs arbitrary: ys)
  case Nil
  then show ?case by simp
next
  case (Cons x xs)
  from Cons.prems(4) obtain y ys' where ys: "ys = y # ys'" by (cases ys) auto
  let ?a = "if xs = [] then [] else CHR ''/'' # join_path xs"
  let ?b = "if ys' = [] then [] else CHR ''/'' # join_path ys'"
  from Cons.prems(5) have "x @ ?a = y @ ?b"
    unfolding ys join_path_Cons .
  moreover from Cons.prems(1) have "CHR ''/'' \<notin> set x" by simp
  moreover from Cons.prems(2) have "CHR ''/'' \<notin> set y" by (simp add: ys)
  ultimately have xy: "x = y \<and> ?a = ?b"
    by (intro sep_split_unique) simp_all
  show ?case
  proof (cases "xs = []")
    case True
    with xy have "ys' = []" by (auto split: if_splits)
    with True xy ys show ?thesis by simp
  next
    case False
    with xy have ne: "ys' \<noteq> []" and j: "join_path xs = join_path ys'"
      by (auto split: if_splits)
    from Cons.prems(1,2) have "xs = ys'"
      by (intro Cons.IH) (simp_all add: ys False ne j)
    with xy ys show ?thesis by simp
  qed
qed

lemma lookup_append:
  "lookup n (p @ q) = (case lookup n p of None \<Rightarrow> None | Some m \<Rightarrow> lookup m q)"
proof (induction p arbitrary: n)
  case Nil
  then show ?case by simp
next
  case (Cons a p)
  then show ?case by (cases n) (auto split: option.splits)
qed

lemma lookup_wf:
  "wf_node n \<Longrightarrow> lookup n p = Some x \<Longrightarrow> (\<forall>c \<in> set p. CHR ''/'' \<notin> set c) \<and> wf_node x"
proof (induction p arbitrary: n)
  case Nil
  then show ?case by simp
next
  case (Cons a p)
  from Cons.prems obtain es m where n: "n = Dir es" and m: "map_of es a = Some m"
    and l: "lookup m p = Some x"
    by (cases n) (auto split: option.splits)
  from m have "(a, m) \<in> set es" by (rule map_of_SomeD)
  with Cons.prems(1) n have "CHR ''/'' \<notin> set a" and "wf_node m" by auto
  with Cons.IH [OF \<open>wf_node m\<close> l] show ?case by simp
qed

lemma remove_package_dirs_subset: "set (remove_package_dirs es xs dirs) \<subseteq> set dirs"
proof (induction xs arbitrary: dirs)
  case Nil
  then show ?case by simp
next
  case (Cons x xs)
  have "set (remove_package_dirs es xs (remove1 x dirs)) \<subseteq> set (remove1 x dirs)"
    by (rule Cons.IH)
  also have "\<dots> \<subseteq> set dirs" by (rule set_remove1_subset)
  finally show ?case using Cons.IH [of dirs] by simp
qed

lemma remove_package_dirs_keeps:
  "d \<in> set dirs \<Longrightarrow> \<not> has_package_indicator es d \<Longrightarrow>
   d \<in> set (remove_package_dirs es xs dirs)"
proof (induction xs arbitrary: dirs)
  case Nil
  then show ?case by simp
next
  case (Cons x xs)
  show ?case
  proof (cases "has_package_indicator es x")
    case True
    with Cons.prems have "d \<noteq> x" by auto
    with Cons.prems(1) have "d \<in> set (remove1 x dirs)" by simp
    then have "d \<in> set (remove_package_dirs es xs (remove1 x dirs))"
      using Cons.prems(2) by (rule Cons.IH)
    with True show ?thesis by simp
  next
    case False
    with Cons show ?thesis by simp
  qed
qed

lemma remove_package_dirs_removes:
  "distinct dirs \<Longrightarrow> d \<in> set xs \<Longrightarrow> has_package_indicator es d \<Longrightarrow>
   d \<notin> set (remove_package_dirs es xs dirs)"
proof (induction xs arbitrary: dirs)
  case Nil
  then show ?case by simp
next
  case (Cons x xs)
  show ?case
  proof (cases "d = x")
    case True
    from Cons.prems(1) have "d \<notin> set (remove1 d dirs)" by simp
    then have "d \<notin> set (remove_package_dirs es xs (remove1 d dirs))"
      using remove_package_dirs_subset by blast
    with True Cons.prems(3) show ?thesis by simp
  next
    case False
    with Cons.prems(2) have "d \<in> set xs" by simp
    moreover from Cons.prems(1) have "distinct (remove1 x dirs)" by simp
    ultimately show ?thesis using Cons.IH Cons.prems(1,3) by simp
  qed
qed

lemma remaining_dirs_D:
  assumes "d \<in> set (remaining_dirs excl es)"
  shows "d \<notin> set excl \<and> d \<in> set (dir_names es)"
proof -
  from assms have "d \<in> set (filter (\<lambda>d. d \<notin> set excl) (dir_names es))"
    unfolding remaining_dirs_def Let_def using remove_package_dirs_subset by blast
  then show ?thesis by simp
qed

lemma distinct_dir_names: "distinct (map fst es) \<Longrightarrow> distinct (dir_names es)"
  unfolding dir_names_def by (rule distinct_map_filter)

lemma remaining_dirs_no_indicator:
  assumes "distinct (map fst es)" and "d \<in> set (remaining_dirs excl es)"
  shows "\<not> has_package_indicator es d"
proof
  assume h: "has_package_indicator es d"
  let ?dirs = "filter (\<lambda>d. d \<notin> set excl) (dir_names es)"
  from assms(1) have "distinct ?dirs" by (simp add: distinct_dir_names)
  moreover from assms(2) have "d \<in> set ?dirs"
    using remaining_dirs_D [OF assms(2)] by simp
  ultimately have "d \<notin> set (remove_package_dirs es ?dirs ?dirs)"
    using h by (rule remove_package_dirs_removes)
  with assms(2) show False by (simp add: remaining_dirs_def Let_def)
qed

lemma remaining_dirs_I:
  "d \<in> set (dir_names es) \<Longrightarrow> d \<notin> set excl \<Longrightarrow> \<not> has_package_indicator es d \<Longrightarrow>
   d \<in> set (remaining_dirs excl es)"
  unfolding remaining_dirs_def Let_def
  by (rule remove_package_dirs_keeps) simp_all

lemma visits_step:
  "visits excl n (p @ d # q) \<Longrightarrow>
   \<exists>es. lookup n p = Some (Dir es) \<and> d \<in> set (remaining_dirs excl es)"
proof (induction p arbitrary: n)
  case Nil
  then show ?case by (cases n) auto
next
  case (Cons a p)
  then show ?case by (cases n) (auto split: option.splits)
qed

lemma walk_stable:
  "(\<And>rel es s file. P s \<Longrightarrow> P (process_file g incl src rel es s file)) \<Longrightarrow>
   P st \<Longrightarrow> P (walk g incl excl src rel n st)"
proof (induction g incl excl src rel n st rule: walk.induct)
  case (1 g incl excl src rel r st)
  then show ?case by simp
next
  case (2 g incl excl src rel es st)
  note stab = "2.prems"(1)
  let ?st1 = "foldl (process_file g incl src rel es) st (file_names es)"
  from "2.prems"(2) have "P ?st1"
    by (rule foldl_stable [rotated]) (rule stab)
  then have "P (foldl (\<lambda>st d. case map_of es d of None \<Rightarrow> st
       | Some n \<Rightarrow> walk g incl excl src (rel @ [d]) n st) ?st1 (remaining_dirs excl es))"
  proof (rule foldl_stable [rotated])
    fix s d assume d: "d \<in> set (remaining_dirs excl es)" and s: "P s"
    show "P (case map_of es d of None \<Rightarrow> s
       | Some n \<Rightarrow> walk g incl excl src (rel @ [d]) n s)"
    proof (cases "map_of es d")
      case None
      with s show ?thesis by simp
    next
      case (Some n)
      have "P (walk g incl excl src (rel @ [d]) n s)"
        using d Some stab s by (intro "2.IH" [OF refl refl])
      with Some show ?thesis by simp
    qed
  qed
  then show ?case by (simp add: Let_def)
qed

lemma walk_reaches:
  assumes stab: "\<And>rel es s file. P s \<Longrightarrow> P (process_file g incl src rel es s file)"
  shows "visits excl n ds \<Longrightarrow> lookup n ds = Some (Dir es) \<Longrightarrow> file \<in> set (file_names es) \<Longrightarrow>
    (\<And>s. P (process_file g incl src (rel @ ds) es s file)) \<Longrightarrow>
    P (walk g incl excl src rel n st)"
proof (induction ds arbitrary: n rel st)
  case Nil
  from Nil.prems(2) have n: "n = Dir es" by simp
  let ?st1 = "foldl (process_file g incl src rel es) st (file_names es)"
  have "P ?st1"
    using Nil.prems(3)
  proof (rule foldl_establish)
    show "P (process_file g incl src rel es s file)" for s
      using Nil.prems(4) [of s] by simp
    show "P (process_file g incl src rel es s y)" if "P s" for s y
      using that by (rule stab)
  qed
  then have "P (foldl (\<lambda>st d. case map_of es d of None \<Rightarrow> st
       | Some n \<Rightarrow> walk g incl excl src (rel @ [d]) n st) ?st1 (remaining_dirs excl es))"
  proof (rule foldl_stable [rotated])
    fix s d assume "P s"
    then show "P (case map_of es d of None \<Rightarrow> s
       | Some n \<Rightarrow> walk g incl excl src (rel @ [d]) n s)"
      by (cases "map_of es d") (simp_all add: walk_stable [of P, OF stab])
  qed
  then show ?case by (simp add: n Let_def)
next
  case (Cons d ds)
  from Cons.prems(1) obtain es0 m where n: "n = Dir es0"
    and d: "d \<in> set (remaining_dirs excl es0)" and m: "map_of es0 d = Some m"
    and v: "visits excl m ds"
    by (cases n) (auto split: option.splits)
  from Cons.prems(2) n m have l: "lookup m ds = Some (Dir es)" by simp
  have below: "P (walk g incl excl src (rel @ [d]) m s)" for s
    using v l Cons.prems(3)
  proof (rule Cons.IH)
    show "P (process_file g incl src ((rel @ [d]) @ ds) es s' file)" for s'
      using Cons.prems(4) [of s'] by simp
  qed
  let ?st1 = "foldl (process_file g incl src rel es0) st (file_names es0)"
  let ?step = "\<lambda>st d. case map_of es0 d of None \<Rightarrow> st
       | Some n \<Rightarrow> walk g incl excl src (rel @ [d]) n st"
  have "P (foldl ?step ?st1 (remaining_dirs excl es0))"
    using d
  proof (rule foldl_establish)
    show "P (?step s d)" for s
      using below [of s] m by simp
    show "P (?step s y)" if "P s" for s y
      using that by (cases "map_of es0 y") (simp_all add: walk_stable [of P, OF stab])
  qed
  then show ?case by (simp add: n Let_def)
qed

lemma process_file_eq:
  "process_file g incl src rel es s file =
     (if candidate g incl src rel file then
        (case open_read (map_of es file) (path_str (src @ rel @ [file])) of
           Content content \<Rightarrow>
             s\<lparr>code_files := AList.update (join_path (rel @ [file])) content (code_files s)\<rparr>
         | DecodeError \<Rightarrow>
             s\<lparr>printed := printed s @
               [''Warning: Could not read '' @ path_str (src @ rel @ [file]) @ '' as text file'']\<rparr>
         | ReadError e \<Rightarrow>
             s\<lparr>printed := printed s @
               [''Error reading '' @ path_str (src @ rel @ [file]) @ '': '' @ e]\<rparr>)
      else s)"
  unfolding process_file_def candidate_def Let_def lookup_single by simp

lemma process_file_keeps_key:
  "k \<in> fst ` set (code_files s) \<Longrightarrow>
   k \<in> fst ` set (code_files (process_file g incl src rel es s file))"
  by (simp add: process_file_eq dom_update split: read_result.splits)


lemma map_of_file_names: "map_of es file = Some (File r) \<Longrightarrow> file \<in> set (file_names es)"
proof -
  assume "map_of es file = Some (File r)"
  then have "(file, File r) \<in> set es" by (rule map_of_SomeD)
  then have "(file, File r) \<in> set (filter (\<lambda>e. \<not> is_dir (snd e)) es)" by simp
  then show ?thesis unfolding file_names_def by (metis fst_conv image_eqI set_map)
qed

lemma walk_stores_key:
  assumes "visits excl n ds" and "lookup n ds = Some (Dir es)"
    and "map_of es file = Some (File (Content c))" and "candidate g incl src (rel @ ds) file"
  shows "join_path (rel @ ds @ [file]) \<in> fst ` set (code_files (walk g incl excl src rel n st))"
proof (rule walk_reaches [where P = "\<lambda>s. join_path (rel @ ds @ [file]) \<in> fst ` set (code_files s)",
      OF _ assms(1,2)])
  show "file \<in> set (file_names es)" using assms(3) by (rule map_of_file_names)
  show "join_path (rel @ ds @ [file]) \<in>
      fst ` set (code_files (process_file g incl src (rel @ ds) es s file))" for s
    using assms(3,4) by (simp add: process_file_eq open_read_def dom_update)
qed (rule process_file_keeps_key)



lemma read_source_files_Inr:
  "lookup fs src = Some root \<Longrightarrow>
   read_source_files fs g src excl incl =
     Inr (walk g (or_default incl default_include_extensions)
            (or_default excl default_exclude_dirs) src [] root \<lparr>code_files = [], printed = []\<rparr>)"
  by (simp add: read_source_files_def)

lemma under_root:
  assumes "wf_node fs" and "lookup fs (src @ p) = Some x"
  obtains root where "lookup fs src = Some root" and "wf_node root" and "lookup root p = Some x"
proof -
  from assms(2) obtain root where t: "lookup fs src = Some root" and l: "lookup root p = Some x"
    by (auto simp: lookup_append split: option.splits)
  from assms(1) t have "wf_node root" by (simp add: lookup_wf)
  with t show ?thesis using l by (intro that)
qed

lemma entry_origin:
  assumes "wf_node root" and "lookup root (ds @ [file]) = Some x"
    and "map_of (code_files (walk g incl excl src [] root \<lparr>code_files = [], printed = []\<rparr>))
           (join_path (ds @ [file])) = Some c"
  shows "visits excl root ds \<and> candidate g incl src ds file \<and> x = File (Content c)"
proof -
  from assms(3) have "stored g incl excl src [] root (join_path (ds @ [file])) c"
    using walk_backward by fastforce
  then obtain ds' f es where v: "visits excl root ds'" and l: "lookup root ds' = Some (Dir es)"
    and c: "candidate g incl src ds' f" and m: "map_of es f = Some (File (Content c))"
    and k: "join_path (ds @ [file]) = join_path (ds' @ [f])"
    unfolding stored_def by auto
  from l m have l': "lookup root (ds' @ [f]) = Some (File (Content c))"
    by (simp add: lookup_append lookup_single)
  from assms(1,2) have "\<forall>c \<in> set (ds @ [file]). CHR ''/'' \<notin> set c" by (simp add: lookup_wf)
  moreover from assms(1) l' have "\<forall>c \<in> set (ds' @ [f]). CHR ''/'' \<notin> set c"
    by (rule lookup_wf [THEN conjunct1])
  ultimately have "ds @ [file] = ds' @ [f]"
    using k by (intro join_path_inject) simp_all
  then have "ds' = ds" and "f = file" by simp_all
  with v c l' assms(2) show ?thesis by simp
qed

lemma not_collected:
  assumes "wf_node fs" and "lookup fs (src @ ds @ [file]) = Some x"
    and "\<And>root. lookup fs src = Some root \<Longrightarrow>
           \<not> (visits (or_default excl default_exclude_dirs) root ds \<and>
              candidate g (or_default incl default_include_extensions) src ds file)"
  shows "\<exists>st. read_source_files fs g src excl incl = Inr st \<and>
           map_of (code_files st) (join_path (ds @ [file])) = None"
proof -
  from assms(1,2) obtain root where t: "lookup fs src = Some root" and w: "wf_node root"
    and l: "lookup root (ds @ [file]) = Some x"
    by (rule under_root)
  let ?st = "walk g (or_default incl default_include_extensions)
            (or_default excl default_exclude_dirs) src [] root \<lparr>code_files = [], printed = []\<rparr>"
  have "map_of (code_files ?st) (join_path (ds @ [file])) = None"
  proof (rule ccontr)
    assume "map_of (code_files ?st) (join_path (ds @ [file])) \<noteq> None"
    then obtain c where "map_of (code_files ?st) (join_path (ds @ [file])) = Some c" by auto
    with w l have "visits (or_default excl default_exclude_dirs) root ds \<and>
        candidate g (or_default incl default_include_extensions) src ds file"
      using entry_origin by blast
    with assms(3) [OF t] show False by simp
  qed
  with t show ?thesis by (simp add: read_source_files_Inr)
qed

subsection \<open>Files that are never collected\<close>



lemma lock_files_lower: "e \<in> set lock_files \<Longrightarrow> lower e = e"
  by (auto simp: lock_files_def lower_def lower_char_def)

text \<open>
  Claim C4. A file whose name equals one of the six lock-file names when case is
  ignored has no entry in the returned dictionary, whatever the extension list is (so
  also when its extension is in the list).
\<close>

theorem lock_file_excluded:
  assumes "wf_node fs"
    and "lookup fs (src_path @ ds @ [file]) = Some (File r)"
    and "e \<in> set lock_files" and "lower file = lower e"
  shows "\<exists>st. read_source_files fs guess_type src_path exclude_dirs include_extensions = Inr st \<and>
           map_of (code_files st) (join_path (ds @ [file])) = None"
  using assms(1,2)
proof (rule not_collected)
  fix root
  from assms(3,4) have "is_lock_file file"
    by (simp add: is_lock_file_def lock_files_lower)
  then show "\<not> (visits (or_default exclude_dirs default_exclude_dirs) root ds \<and>
      candidate guess_type (or_default include_extensions default_include_extensions)
        src_path ds file)"
    by (simp add: candidate_def)
qed

theorem lock_file_excluded_witness:
  "extension_included [''.lock'', ''.py''] ''Yarn.lock'' \<and>
   (\<exists>st. read_source_files sample_fs sample_guess_type [''proj''] None
           (Some [''.lock'', ''.py'']) = Inr st \<and>
      map_of (code_files st) ''Yarn.lock'' = None)"
proof -
  have w: "wf_node sample_fs" by (simp add: sample_fs_def sample_proj_def)
  have l: "lookup sample_fs ([''proj''] @ [] @ [''Yarn.lock'']) = Some (File (Content ''# yarn''))"
    by (simp add: sample_fs_def sample_proj_def)
  have m: "''yarn.lock'' \<in> set lock_files" by (simp add: lock_files_def)
  have e: "lower ''Yarn.lock'' = lower ''yarn.lock''" by code_simp
  have x: "extension_included [''.lock'', ''.py''] ''Yarn.lock''" by code_simp
  show ?thesis
    using lock_file_excluded [OF w l m e, of sample_guess_type None "Some [''.lock'', ''.py'']"] x by simp
qed

subsection \<open>Pruned directories\<close>

lemma remaining_dirs_iff:
  assumes "distinct (map fst es)"
  shows "d \<in> set (remaining_dirs excl es) \<longleftrightarrow>
     d \<in> set (dir_names es) \<and> d \<notin> set excl \<and> \<not> has_package_indicator es d"
  using remaining_dirs_D remaining_dirs_no_indicator [OF assms] remaining_dirs_I
  by blast

text \<open>
  Claim C2 speaks of every directory in the walked tree. The root of the walk is such a
  directory, and it is walked whatever its name: here the root \<^verbatim>\<open>/lib\<close> bears an
  excluded name, and the file \<^verbatim>\<open>a.py\<close> beneath it is collected.
\<close>

theorem excluded_root_counterexample:
  "''lib'' \<in> set default_exclude_dirs \<and>
   lookup lib_root_fs [''lib'', ''a.py''] = Some (File (Content ''x=1'')) \<and>
   read_source_files lib_root_fs sample_guess_type [''lib''] None None =
     Inr \<lparr>code_files = [(''a.py'', ''x=1'')], printed = []\<rparr>"
  by code_simp

text \<open>
  Claim C2, amended. Let \<open>d\<close> be a directory strictly below the root (its parent lies at
  \<open>pre\<close>, relative to the root) whose name is in the exclusion list in force. Then
  \<open>d\<close> is not among the children of its parent that the walk descends into, and
  nothing beneath \<open>d\<close>, at any depth and whatever its extension, is a key of the
  returned dictionary.
\<close>

theorem excluded_subdirectory_pruned:
  assumes "wf_node fs"
    and "lookup fs (src_path @ pre @ d # rest @ [file]) = Some x"
    and "d \<in> set (or_default exclude_dirs default_exclude_dirs)"
  shows "(\<exists>es. lookup fs (src_path @ pre) = Some (Dir es) \<and>
            d \<notin> set (remaining_dirs (or_default exclude_dirs default_exclude_dirs) es)) \<and>
         (\<exists>st. read_source_files fs guess_type src_path exclude_dirs include_extensions = Inr st \<and>
            map_of (code_files st) (join_path (pre @ d # rest @ [file])) = None)"
proof
  from assms(2) obtain n where n: "lookup fs (src_path @ pre) = Some n"
    and below: "lookup n (d # rest @ [file]) = Some x"
    using lookup_append [of fs "src_path @ pre" "d # rest @ [file]"]
    by (auto split: option.splits)
  from below obtain es where "n = Dir es" by (cases n) auto
  moreover from assms(3)
  have "d \<notin> set (remaining_dirs (or_default exclude_dirs default_exclude_dirs) es)"
    using remaining_dirs_D by blast
  ultimately show "\<exists>es. lookup fs (src_path @ pre) = Some (Dir es) \<and>
      d \<notin> set (remaining_dirs (or_default exclude_dirs default_exclude_dirs) es)"
    using n by simp
next
  have "\<exists>st. read_source_files fs guess_type src_path exclude_dirs include_extensions = Inr st \<and>
      map_of (code_files st) (join_path ((pre @ d # rest) @ [file])) = None"
  proof (rule not_collected [OF assms(1)])
    show "lookup fs (src_path @ (pre @ d # rest) @ [file]) = Some x"
      using assms(2) by simp
    fix root
    have "\<not> visits (or_default exclude_dirs default_exclude_dirs) root (pre @ d # rest)"
    proof
      assume "visits (or_default exclude_dirs default_exclude_dirs) root (pre @ d # rest)"
      then have "\<exists>es. d \<in> set (remaining_dirs (or_default exclude_dirs default_exclude_dirs) es)"
        using visits_step by blast
      with assms(3) show False using remaining_dirs_D by blast
    qed
    then show "\<not> (visits (or_default exclude_dirs default_exclude_dirs) root (pre @ d # rest) \<and>
      candidate guess_type (or_default include_extensions default_include_extensions)
        src_path (pre @ d # rest) file)"
      by simp
  qed
  then show "\<exists>st. read_source_files fs guess_type src_path exclude_dirs include_extensions = Inr st \<and>
      map_of (code_files st) (join_path (pre @ d # rest @ [file])) = None"
    by simp
qed

theorem excluded_subdirectory_pruned_witness:
  "(\<exists>es. lookup sample_fs [''proj'', ''sub''] = Some (Dir es) \<and>
      ''node_modules'' \<notin> set (remaining_dirs default_exclude_dirs es)) \<and>
   (\<exists>st. read_source_files sample_fs sample_guess_type [''proj''] None None = Inr st \<and>
      map_of (code_files st) ''sub/node_modules/d.js'' = None)"
proof -
  have w: "wf_node sample_fs" by (simp add: sample_fs_def sample_proj_def)
  have l: "lookup sample_fs ([''proj''] @ [''sub''] @ ''node_modules'' # [] @ [''d.js'']) =
      Some (File (Content ''js''))"
    by (simp add: sample_fs_def sample_proj_def)
  have m: "''node_modules'' \<in> set (or_default None default_exclude_dirs)"
    by (simp add: or_default_def default_exclude_dirs_def)
  show ?thesis
    using excluded_subdirectory_pruned [OF w l m, of sample_guess_type None] by (simp add: or_default_def)
qed

text \<open>
  Claim C3. Let \<open>d\<close> be a directory below the root that directly contains a file whose
  name is one of the five package indicators. Then \<open>d\<close> is not among the children of
  its parent that the walk descends into, and nothing beneath \<open>d\<close> (the indicator
  file included) is a key of the returned dictionary.
\<close>

theorem package_directory_pruned:
  assumes "wf_node fs"
    and "lookup fs (src_path @ pre @ [d, marker]) = Some (File r)"
    and "marker \<in> set package_indicators"
    and "lookup fs (src_path @ pre @ d # rest @ [file]) = Some x"
  shows "(\<exists>es. lookup fs (src_path @ pre) = Some (Dir es) \<and>
            d \<notin> set (remaining_dirs (or_default exclude_dirs default_exclude_dirs) es)) \<and>
         (\<exists>st. read_source_files fs guess_type src_path exclude_dirs include_extensions = Inr st \<and>
            map_of (code_files st) (join_path (pre @ d # rest @ [file])) = None)"
proof -
  let ?excl = "or_default exclude_dirs default_exclude_dirs"
  from assms(1,4) obtain root where root: "lookup fs src_path = Some root"
    and wfr: "wf_node root" and lr: "lookup root (pre @ d # rest @ [file]) = Some x"
    by (rule under_root)
  from lr obtain n where n: "lookup root pre = Some n"
    and below: "lookup n (d # rest @ [file]) = Some x"
    using lookup_append [of root pre "d # rest @ [file]"] by (auto split: option.splits)
  from below obtain es where es: "n = Dir es" by (cases n) auto
  from wfr n es have "wf_node (Dir es)" using lookup_wf by blast
  then have dist: "distinct (map fst es)" by simp
  from assms(2) root n es have "lookup (Dir es) [d, marker] = Some (File r)"
    using lookup_append [of fs src_path "pre @ [d, marker]"]
      lookup_append [of root pre "[d, marker]"] by simp
  with assms(3) have ind: "has_package_indicator es d"
    by (auto simp: has_package_indicator_def exists_path_def list_ex_iff)
  have pruned: "d \<notin> set (remaining_dirs ?excl es)"
    using remaining_dirs_no_indicator [OF dist] ind by blast
  have first: "\<exists>es. lookup fs (src_path @ pre) = Some (Dir es) \<and>
      d \<notin> set (remaining_dirs ?excl es)"
    using root n es pruned by (simp add: lookup_append)
  have "\<exists>st. read_source_files fs guess_type src_path exclude_dirs include_extensions = Inr st \<and>
      map_of (code_files st) (join_path ((pre @ d # rest) @ [file])) = None"
  proof (rule not_collected [OF assms(1)])
    show "lookup fs (src_path @ (pre @ d # rest) @ [file]) = Some x"
      using assms(4) by simp
    fix root' assume "lookup fs src_path = Some root'"
    with root have same: "root' = root" by simp
    have "\<not> visits ?excl root (pre @ d # rest)"
    proof
      assume "visits ?excl root (pre @ d # rest)"
      then obtain es' where "lookup root pre = Some (Dir es')"
        and "d \<in> set (remaining_dirs ?excl es')"
        using visits_step by blast
      with n es pruned show False by simp
    qed
    with same show "\<not> (visits ?excl root' (pre @ d # rest) \<and>
      candidate guess_type (or_default include_extensions default_include_extensions)
        src_path (pre @ d # rest) file)"
      by simp
  qed
  then have "\<exists>st. read_source_files fs guess_type src_path exclude_dirs include_extensions = Inr st \<and>
      map_of (code_files st) (join_path (pre @ d # rest @ [file])) = None"
    by simp
  with first show ?thesis by simp
qed

theorem package_directory_pruned_witness:
  "(\<exists>es. lookup sample_fs [''proj''] = Some (Dir es) \<and>
      ''pkg'' \<notin> set (remaining_dirs default_exclude_dirs es)) \<and>
   (\<exists>st. read_source_files sample_fs sample_guess_type [''proj''] None None = Inr st \<and>
      map_of (code_files st) ''pkg/src/e.py'' = None)"
proof -
  have w: "wf_node sample_fs" by (simp add: sample_fs_def sample_proj_def)
  have k: "lookup sample_fs ([''proj''] @ [] @ [''pkg'', ''package.json'']) =
      Some (File (Content ''{}''))"
    by (simp add: sample_fs_def sample_proj_def)
  have m: "''package.json'' \<in> set package_indicators"
    by (simp add: package_indicators_def)
  have l: "lookup sample_fs ([''proj''] @ [] @ ''pkg'' # [''src''] @ [''e.py'']) =
      Some (File (Content ''e''))"
    by (simp add: sample_fs_def sample_proj_def)
  show ?thesis
    using package_directory_pruned [OF w k m l, of None sample_guess_type None] by (simp add: or_default_def)
qed

subsection \<open>Names that begin with a dot\<close>

lemma suffix_dotfile:
  assumes "CHR ''.'' \<notin> set rest"
  shows "suffix (CHR ''.'' # rest) = []"
proof -
  have "takeWhile (\<lambda>x. x \<noteq> CHR ''.'') (rev rest @ [CHR ''.'']) =
      rev rest @ takeWhile (\<lambda>x. x \<noteq> CHR ''.'') [CHR ''.'']"
    using assms by (intro takeWhile_append2) auto
  then have "rfind CHR ''.'' (CHR ''.'' # rest) = Some 0"
    by (simp add: rfind_def)
  then show ?thesis by (simp add: suffix_def)
qed

text \<open>
  Claim C10 says that a file such as \<^verbatim>\<open>.gitignore\<close> is never included. Its extension
  is indeed empty, but a caller may pass the empty string as an extension
  (\<^verbatim>\<open>include_extensions=['']\<close>), and then the file is collected.
\<close>

theorem dotfile_empty_extension_counterexample:
  "suffix ''.gitignore'' = [] \<and>
   lookup dotfile_fs [''proj'', ''.gitignore''] = Some (File (Content ''*.pyc'')) \<and>
   read_source_files dotfile_fs sample_guess_type [''proj''] None (Some ['''']) =
     Inr \<lparr>code_files = [(''.gitignore'', ''*.pyc'')], printed = []\<rparr>"
  by code_simp

text \<open>
  Claim C10, amended. For a file whose name is a dot followed by characters other than
  a dot, \<^verbatim>\<open>suffix\<close> is the empty string. The empty string is not an entry of the default
  extension list, so under the default, and under every extension list without the
  empty string, the file has no entry in the returned dictionary. This holds although
  the default list contains names of just that form.
\<close>

theorem dotfile_not_included:
  assumes "CHR ''.'' \<notin> set rest"
    and "wf_node fs"
    and "lookup fs (src_path @ ds @ [CHR ''.'' # rest]) = Some (File r)"
    and "[] \<notin> set (or_default include_extensions default_include_extensions)"
  shows "suffix (CHR ''.'' # rest) = [] \<and>
         [] \<notin> set default_include_extensions \<and>
         (\<exists>st. read_source_files fs guess_type src_path exclude_dirs include_extensions = Inr st \<and>
            map_of (code_files st) (join_path (ds @ [CHR ''.'' # rest])) = None)"
proof (intro conjI)
  show s: "suffix (CHR ''.'' # rest) = []" using assms(1) by (rule suffix_dotfile)
  show "[] \<notin> set default_include_extensions"
    by (simp add: default_include_extensions_def)
  show "\<exists>st. read_source_files fs guess_type src_path exclude_dirs include_extensions = Inr st \<and>
      map_of (code_files st) (join_path (ds @ [CHR ''.'' # rest])) = None"
    using assms(2,3)
  proof (rule not_collected)
    fix root
    from s assms(4) have "\<not> extension_included
        (or_default include_extensions default_include_extensions) (CHR ''.'' # rest)"
      by (simp add: extension_included_def lower_def)
    then show "\<not> (visits (or_default exclude_dirs default_exclude_dirs) root ds \<and>
      candidate guess_type (or_default include_extensions default_include_extensions)
        src_path ds (CHR ''.'' # rest))"
      by (simp add: candidate_def)
  qed
qed

theorem dotfile_not_included_witness:
  "suffix ''.gitignore'' = [] \<and> ''.gitignore'' \<in> set default_include_extensions \<and>
   (\<exists>st. read_source_files sample_fs sample_guess_type [''proj''] None None = Inr st \<and>
      map_of (code_files st) ''.gitignore'' = None)"
proof -
  have d: "CHR ''.'' \<notin> set ''gitignore''" by simp
  have w: "wf_node sample_fs" by (simp add: sample_fs_def sample_proj_def)
  have l: "lookup sample_fs ([''proj''] @ [] @ [CHR ''.'' # ''gitignore'']) =
      Some (File (Content ''*.pyc''))"
    by (simp add: sample_fs_def sample_proj_def)
  have e: "[] \<notin> set (or_default None default_include_extensions)"
    by (simp add: or_default_def default_include_extensions_def)
  have i: "''.gitignore'' \<in> set default_include_extensions"
    by (simp add: default_include_extensions_def)
  show ?thesis
    using dotfile_not_included [OF d w l e, of sample_guess_type None] i by simp
qed

subsection \<open>Files that cannot be read\<close>

lemma lookup_snoc:
  assumes "lookup n (ds @ [f]) = Some x"
  shows "\<exists>es. lookup n ds = Some (Dir es) \<and> map_of es f = Some x"
proof -
  from assms obtain m where m: "lookup n ds = Some m" and f: "lookup m [f] = Some x"
    by (auto simp: lookup_append split: option.splits)
  from f obtain es where "m = Dir es" by (cases m) auto
  with m f show ?thesis by (auto split: option.splits)
qed

lemma read_source_files_distinct:
  assumes "read_source_files fs guess_type src_path exclude_dirs include_extensions = Inr st"
  shows "distinct (map fst (code_files st))"
proof -
  from assms obtain root where "lookup fs src_path = Some root"
    by (auto simp: read_source_files_def Let_def split: option.splits)
  then have "st = walk guess_type (or_default include_extensions default_include_extensions)
      (or_default exclude_dirs default_exclude_dirs) src_path [] root
      \<lparr>code_files = [], printed = []\<rparr>"
    using assms by (simp add: read_source_files_Inr)
  moreover have "distinct (map fst (code_files (walk guess_type
      (or_default include_extensions default_include_extensions)
      (or_default exclude_dirs default_exclude_dirs) src_path [] root
      \<lparr>code_files = [], printed = []\<rparr>)))"
    by (rule walk_stable [where P = "\<lambda>s. distinct (map fst (code_files s))"])
      (simp_all add: process_file_eq distinct_update split: read_result.splits)
  ultimately show ?thesis by simp
qed

text \<open>
  The returned dictionary holds exactly the files that the walk reaches, that pass the
  three tests and that can be read, each under its relative path and with its content.
\<close>

lemma read_source_files_exact:
  assumes "wf_node fs" and "lookup fs src_path = Some root"
    and "read_source_files fs guess_type src_path exclude_dirs include_extensions = Inr st"
  shows "map_of (code_files st) k = Some c \<longleftrightarrow>
     (\<exists>ds file. k = join_path (ds @ [file]) \<and>
        lookup root (ds @ [file]) = Some (File (Content c)) \<and>
        visits (or_default exclude_dirs default_exclude_dirs) root ds \<and>
        candidate guess_type (or_default include_extensions default_include_extensions)
          src_path ds file)"
proof
  let ?excl = "or_default exclude_dirs default_exclude_dirs"
  let ?incl = "or_default include_extensions default_include_extensions"
  from assms(2,3) have st: "st = walk guess_type ?incl ?excl src_path [] root
      \<lparr>code_files = [], printed = []\<rparr>"
    by (simp add: read_source_files_Inr)
  from assms(1,2) have wfr: "wf_node root" by (simp add: lookup_wf)
  {
    assume "map_of (code_files st) k = Some c"
    then have "stored guess_type ?incl ?excl src_path [] root k c"
      unfolding st using walk_backward by fastforce
    then obtain ds f es where "visits ?excl root ds" and "lookup root ds = Some (Dir es)"
      and "candidate guess_type ?incl src_path ds f"
      and "map_of es f = Some (File (Content c))" and "k = join_path (ds @ [f])"
      unfolding stored_def by auto
    then show "\<exists>ds file. k = join_path (ds @ [file]) \<and>
        lookup root (ds @ [file]) = Some (File (Content c)) \<and>
        visits ?excl root ds \<and> candidate guess_type ?incl src_path ds file"
      by (intro exI [of _ ds] exI [of _ f]) (simp add: lookup_append lookup_single)
  }
  {
    assume "\<exists>ds file. k = join_path (ds @ [file]) \<and>
        lookup root (ds @ [file]) = Some (File (Content c)) \<and>
        visits ?excl root ds \<and> candidate guess_type ?incl src_path ds file"
    then obtain ds f where k: "k = join_path (ds @ [f])"
      and l: "lookup root (ds @ [f]) = Some (File (Content c))"
      and v: "visits ?excl root ds" and cd: "candidate guess_type ?incl src_path ds f"
      by blast
    from l obtain es where es: "lookup root ds = Some (Dir es)"
      and f: "map_of es f = Some (File (Content c))"
      using lookup_snoc by blast
    have "k \<in> fst ` set (code_files st)"
      unfolding st k
      using walk_stores_key [OF v es f, of guess_type "?incl" src_path "[]"] cd by simp
    then obtain c' where c': "map_of (code_files st) k = Some c'"
      by (metis domD dom_map_of_conv_image_fst)
    with wfr l have "File (Content c) = File (Content c')"
      unfolding st k using entry_origin by blast
    with c' show "map_of (code_files st) k = Some c" by simp
  }
qed



end
